theory Spec2Isabelle
  imports Complex_Main
begin

section \<open>Pull-to-refresh gesture handler (ArticleFeed.vue)\<close>

text \<open>
  The component keeps four reactive cells: \<^verbatim>\<open>pullDistance\<close>, \<^verbatim>\<open>isPulling\<close>,
  \<^verbatim>\<open>isRefreshing\<close> and \<^verbatim>\<open>startY\<close>. JavaScript numbers are modelled as reals:
  the only arithmetic is a subtraction, a halving and a comparison.
\<close>

record gesture =
  pullDistance :: real
  isPulling :: bool
  isRefreshing :: bool
  startY :: real

definition PULL_THRESHOLD :: real where
  "PULL_THRESHOLD = 80"

definition MAX_PULL :: real where
  "MAX_PULL = 120"

text \<open>What a handler asks of its collaborators: the feed controller and the window.\<close>

datatype effect = FetchArticles bool | ScrollToTop

text \<open>
  \<^verbatim>\<open>onTouchStart(e)\<close>: the arguments are \<^verbatim>\<open>e.touches[0].clientY\<close> and the value of
  \<^verbatim>\<open>window.scrollY\<close> read by the handler.
\<close>

definition onTouchStart :: "real \<Rightarrow> real \<Rightarrow> gesture \<Rightarrow> gesture" where
  "onTouchStart clientY scrollY g =
     (if isRefreshing g \<or> scrollY > 0 then g
      else g\<lparr>startY := clientY, isPulling := True\<rparr>)"

text \<open>
  \<^verbatim>\<open>onTouchMove(e)\<close>. The call \<^verbatim>\<open>e.preventDefault()\<close> of the first branch touches
  no cell of the component and is left out.
\<close>

definition onTouchMove :: "real \<Rightarrow> real \<Rightarrow> gesture \<Rightarrow> gesture" where
  "onTouchMove clientY scrollY g =
     (if \<not> isPulling g \<or> isRefreshing g then g
      else
        let diff = clientY - startY g in
        if diff > 0 \<and> scrollY = 0
        then g\<lparr>pullDistance := min (diff * 0.5) MAX_PULL\<rparr>
        else g\<lparr>pullDistance := 0\<rparr>)"

text \<open>
  \<^verbatim>\<open>onTouchEnd\<close> is an async function. \<open>onTouchEnd\<close> is the part that runs when the
  event is delivered, up to \<^verbatim>\<open>await fetchArticles(true)\<close> or to the end of the body
  when the refresh branch is not taken. It returns the new cells and the calls made;
  a call in that list is the awaited fetch, so a non-empty list means the function is
  suspended. \<open>onTouchEnd_resume\<close> is the rest of the body, run when the awaited
  fetch settles.
\<close>

definition onTouchEnd :: "gesture \<Rightarrow> gesture \<times> effect list" where
  "onTouchEnd g =
     (if \<not> isPulling g then (g, [])
      else
        let g1 = g\<lparr>isPulling := False\<rparr> in
        if pullDistance g1 \<ge> PULL_THRESHOLD
        then (g1\<lparr>isRefreshing := True, pullDistance := 60\<rparr>, [FetchArticles True])
        else (g1\<lparr>pullDistance := 0\<rparr>, []))"

definition onTouchEnd_resume :: "gesture \<Rightarrow> gesture \<times> effect list" where
  "onTouchEnd_resume g =
     (g\<lparr>isRefreshing := False, pullDistance := 0\<rparr>, [ScrollToTop])"

subsection \<open>The handlers on the event loop\<close>

text \<open>
  The mounted component on a touch device: its cells, the window's scroll offset, the
  number of \<^verbatim>\<open>onTouchEnd\<close> calls suspended at their \<^verbatim>\<open>await\<close>, and the calls made so
  far. The event loop delivers touch events, scrolling (any offset the window reports)
  and the settling of an awaited fetch, one at a time.
\<close>

record sys =
  gest :: gesture
  windowScrollY :: real
  awaiting :: nat
  calls :: "effect list"

datatype event = TouchStart real | TouchMove real | TouchEnd | Scroll real | FetchSettled

fun step :: "event \<Rightarrow> sys \<Rightarrow> sys" where
  "step (TouchStart y) s = s\<lparr>gest := onTouchStart y (windowScrollY s) (gest s)\<rparr>"
| "step (TouchMove y) s = s\<lparr>gest := onTouchMove y (windowScrollY s) (gest s)\<rparr>"
| "step TouchEnd s =
     (case onTouchEnd (gest s) of (g, fx) \<Rightarrow>
        s\<lparr>gest := g, awaiting := awaiting s + length fx, calls := calls s @ fx\<rparr>)"
| "step (Scroll y) s = s\<lparr>windowScrollY := y\<rparr>"
| "step FetchSettled s =
     (if awaiting s = 0 then s
      else case onTouchEnd_resume (gest s) of (g, fx) \<Rightarrow>
        s\<lparr>gest := g, awaiting := awaiting s - 1, calls := calls s @ fx\<rparr>)"

fun run :: "event list \<Rightarrow> sys \<Rightarrow> sys" where
  "run [] s = s"
| "run (e # es) s = run es (step e s)"

definition mounted :: sys where
  "mounted =
     \<lparr>gest = \<lparr>pullDistance = 0, isPulling = False, isRefreshing = False, startY = 0\<rparr>,
      windowScrollY = 0, awaiting = 0, calls = []\<rparr>"

text \<open>The refresh fetches among a list of calls.\<close>

definition refresh_fetches :: "effect list \<Rightarrow> nat" where
  "refresh_fetches fx = length (filter (\<lambda>c. c = FetchArticles True) fx)"

text \<open>What holds of every state the handlers can reach (shown below).\<close>

definition gesture_inv :: "sys \<Rightarrow> bool" where
  "gesture_inv s \<longleftrightarrow>
     0 \<le> pullDistance (gest s) \<and> pullDistance (gest s) \<le> 120 \<and>
     (if isRefreshing (gest s)
      then \<not> isPulling (gest s) \<and> pullDistance (gest s) = 60 \<and> awaiting s = 1
      else awaiting s = 0 \<and> (isPulling (gest s) \<or> pullDistance (gest s) = 0))"

section \<open>The feed's load-more control\<close>

text \<open>
  The template of ArticleFeed.vue renders, under the articles, one of three elements
  inside a block that exists only when the list is not empty: the button (\<^verbatim>\<open>v-if\<close>),
  the spinner (\<^verbatim>\<open>v-else-if\<close>) or the end-of-articles line (\<^verbatim>\<open>v-else\<close>).
\<close>

datatype load_more_slot = NoSlot | LoadMoreButton | LoadingSpinner | EndOfArticles

definition load_more_slot :: "nat \<Rightarrow> bool \<Rightarrow> bool \<Rightarrow> load_more_slot" where
  "load_more_slot n_articles has_more is_loading =
     (if n_articles > 0
      then (if has_more \<and> \<not> is_loading then LoadMoreButton
            else if is_loading then LoadingSpinner
            else EndOfArticles)
      else NoSlot)"

text \<open>
  Modelled from the spec: the feed state of composables/useArticles.js, which is not
  among the sources. The component takes \<^verbatim>\<open>articles\<close>, \<^verbatim>\<open>loading\<close>, \<^verbatim>\<open>error\<close>,
  \<^verbatim>\<open>hasMore\<close> and \<^verbatim>\<open>total\<close> from \<^verbatim>\<open>useArticles()\<close>; the spec adds the page
  cursor. The articles are kept by their ids.
\<close>

record feed =
  articles :: "nat list"
  page :: nat
  hasMore :: bool
  total :: nat
  loading :: bool
  error :: "string option"

text \<open>
  Modelled from the spec: \<^verbatim>\<open>loadMore\<close> of composables/useArticles.js, which is not
  among the sources. The spec gives it the preconditions \<^verbatim>\<open>hasMore === true\<close> and
  \<^verbatim>\<open>loading === false\<close>; it increments \<^verbatim>\<open>page\<close> and calls the fetch in append
  mode, and it is a no-op (state unchanged, no fetch issued) otherwise.
\<close>

definition loadMore :: "feed \<Rightarrow> feed \<times> effect list" where
  "loadMore f =
     (if hasMore f \<and> \<not> loading f
      then (f\<lparr>page := page f + 1\<rparr>, [FetchArticles False])
      else (f, []))"

text \<open>
  A click on the load-more control: \<^verbatim>\<open>@click="loadMore"\<close> is bound on the button only,
  so there is something to click only when the button is rendered.
\<close>

definition click_load_more :: "feed \<Rightarrow> (feed \<times> effect list) option" where
  "click_load_more f =
     (if load_more_slot (length (articles f)) (hasMore f) (loading f) = LoadMoreButton
      then Some (loadMore f)
      else None)"

section \<open>Auxiliary data: filters (App.vue) and the today counter (AppHeader.vue)\<close>

text \<open>
  A promise settles with a value or is rejected with an error, of which only the
  \<^verbatim>\<open>name\<close> is ever read.
\<close>

datatype js_error = JsError string

fun error_name :: "js_error \<Rightarrow> string" where
  "error_name (JsError n) = n"

type_synonym 'a settled = "js_error + 'a"

text \<open>An entry of the categories and regions lists: \<^verbatim>\<open>{name, count}\<close>.\<close>

type_synonym facet = "string \<times> nat"

record app =
  categories :: "facet list"
  regions :: "facet list"

definition app_setup :: app where
  "app_setup = \<lparr>categories = [], regions = []\<rparr>"

text \<open>
  \<^verbatim>\<open>Promise.all\<close> of two promises is rejected as soon as one of them is, and is
  fulfilled with both values otherwise. Which error it carries when both are rejected
  depends on their order in time; no caller here reads it.
\<close>

definition promise_all :: "'a settled \<Rightarrow> 'b settled \<Rightarrow> ('a \<times> 'b) settled" where
  "promise_all p q =
     (case p of
        Inl e \<Rightarrow> Inl e
      | Inr x \<Rightarrow> (case q of Inl e \<Rightarrow> Inl e | Inr y \<Rightarrow> Inr (x, y)))"

text \<open>
  \<^verbatim>\<open>fetchFilters\<close>, given how \<^verbatim>\<open>getCategories()\<close> and \<^verbatim>\<open>getRegions()\<close> settle. The
  result is how the async function itself settles: \<open>Inl\<close> would be an error that
  leaves it.
\<close>

definition fetchFilters :: "facet list settled \<Rightarrow> facet list settled \<Rightarrow> app \<Rightarrow> app settled" where
  "fetchFilters getCategories getRegions a =
     (case promise_all getCategories getRegions of
        Inr (cats, regs) \<Rightarrow> Inr (a\<lparr>categories := cats, regions := regs\<rparr>)
      | Inl e \<Rightarrow> Inr a)"

text \<open>
  The header. The stats object is read as \<^verbatim>\<open>stats.articles?.fetched_today ?? null\<close>:
  \<open>stats_articles\<close> is \<open>None\<close> when \<^verbatim>\<open>articles\<close> is null or absent, and the inner
  option is \<open>None\<close> when \<^verbatim>\<open>fetched_today\<close> is.
\<close>

record stats =
  stats_articles :: "real option option"

record header =
  todayCount :: "real option"

definition header_setup :: header where
  "header_setup = \<lparr>todayCount = None\<rparr>"

definition fetchStats :: "stats settled \<Rightarrow> header \<Rightarrow> header settled" where
  "fetchStats getStats h =
     (case getStats of
        Inr st \<Rightarrow>
          Inr (h\<lparr>todayCount := (case stats_articles st of None \<Rightarrow> None | Some t \<Rightarrow> t)\<rparr>)
      | Inl e \<Rightarrow> Inr h)"

text \<open>The counter of the header is rendered with \<^verbatim>\<open>v-if="todayCount !== null"\<close>.\<close>

definition shows_today_counter :: "header \<Rightarrow> bool" where
  "shows_today_counter h \<longleftrightarrow> todayCount h \<noteq> None"

text \<open>The filter bar is rendered with \<^verbatim>\<open>v-if="hasFilters"\<close>.\<close>

definition hasFilters :: "app \<Rightarrow> bool" where
  "hasFilters a \<longleftrightarrow> length (categories a) > 0 \<or> length (regions a) > 0"

text \<open>\<^verbatim>\<open>onMounted\<close> of ArticleFeed.vue, as far as the feed goes: the calls it makes.\<close>

definition feed_onMounted :: "feed \<Rightarrow> effect list" where
  "feed_onMounted f = (if length (articles f) = 0 then [FetchArticles True] else [])"

text \<open>
  The page once every component is mounted and the three auxiliary requests have
  settled: the header runs \<^verbatim>\<open>fetchStats\<close>, the feed its \<^verbatim>\<open>onMounted\<close>, the app
  \<^verbatim>\<open>fetchFilters\<close>. \<open>uncaught\<close> collects the errors that leave an async function.
\<close>

record page_state =
  page_app :: app
  page_header :: header
  page_feed :: feed
  feed_calls :: "effect list"
  uncaught :: "js_error list"

definition settle :: "'a settled \<Rightarrow> 'a \<Rightarrow> 'a \<times> js_error list" where
  "settle r old = (case r of Inr new \<Rightarrow> (new, []) | Inl e \<Rightarrow> (old, [e]))"

definition mount_page ::
  "facet list settled \<Rightarrow> facet list settled \<Rightarrow> stats settled \<Rightarrow> feed \<Rightarrow> page_state" where
  "mount_page getCategories getRegions getStats f =
     (let (h, eh) = settle (fetchStats getStats header_setup) header_setup;
          (a, ea) = settle (fetchFilters getCategories getRegions app_setup) app_setup
      in \<lparr>page_app = a, page_header = h, page_feed = f,
          feed_calls = feed_onMounted f, uncaught = eh @ ea\<rparr>)"

section \<open>The filter bar (FilterBar.vue)\<close>

text \<open>
  The bar emits one intent, \<^verbatim>\<open>emit('filter-change', {type, value})\<close>. The value is
  \<^verbatim>\<open>null\<close>, a category or region name, or a minimum score.
\<close>

datatype filter_type = Category | Region | MinScore

datatype filter_value = Null | Name string | Score real

datatype emitted = FilterChange filter_type filter_value

fun emitted_value :: "emitted \<Rightarrow> filter_value" where
  "emitted_value (FilterChange t v) = v"

record props =
  prop_categories :: "facet list"
  prop_regions :: "facet list"
  activeCategory :: "string option"
  activeRegion :: "string option"
  activeMinScore :: "real option"

definition selectCategory :: "filter_value \<Rightarrow> emitted" where
  "selectCategory v = FilterChange Category v"

definition selectRegion :: "filter_value \<Rightarrow> emitted" where
  "selectRegion v = FilterChange Region v"

definition selectMinScore :: "filter_value \<Rightarrow> emitted" where
  "selectMinScore v = FilterChange MinScore v"

text \<open>The \<^verbatim>\<open>min\<close> and \<^verbatim>\<open>label\<close> of each entry of \<^verbatim>\<open>ratingLevels\<close>; the CSS classes are left out.\<close>

definition ratingLevels :: "(real \<times> string) list" where
  "ratingLevels = [(90, ''Radiant''), (80, ''Inspiring''), (70, ''Uplifting''), (60, ''Hopeful'')]"

text \<open>
  The buttons of the template and their \<^verbatim>\<open>@click\<close> expressions. The handlers are
  closures of the component, so the props are in their scope.
\<close>

datatype button =
  AllCategories | CategoryButton string
| AllLevels | LevelButton real
| AllRegions | RegionButton string

fun click :: "props \<Rightarrow> button \<Rightarrow> emitted" where
  "click p AllCategories = selectCategory Null"
| "click p (CategoryButton n) = selectCategory (Name n)"
| "click p AllLevels = selectMinScore Null"
| "click p (LevelButton m) = selectMinScore (Score m)"
| "click p AllRegions = selectRegion Null"
| "click p (RegionButton n) = selectRegion (Name n)"

fun is_all :: "button \<Rightarrow> bool" where
  "is_all AllCategories = True"
| "is_all AllLevels = True"
| "is_all AllRegions = True"
| "is_all b = False"

text \<open>The buttons the template renders, in its order.\<close>

definition buttons :: "props \<Rightarrow> button list" where
  "buttons p =
     (if length (prop_categories p) > 0 \<or> length (prop_regions p) > 0
      then
        (if length (prop_categories p) > 0
         then AllCategories # map (\<lambda>cat. CategoryButton (fst cat)) (prop_categories p)
         else [])
        @ (AllLevels # map (\<lambda>lvl. LevelButton (fst lvl)) ratingLevels)
        @ (if length (prop_regions p) > 0
           then AllRegions # map (\<lambda>reg. RegionButton (fst reg)) (prop_regions p)
           else [])
      else [])"

section \<open>The hope level badge (HopeLevel.vue)\<close>

text \<open>An entry of \<^verbatim>\<open>levels\<close>; the CSS classes and the icon glyph are left out.\<close>

record level_entry =
  min_score :: real
  label :: string
  tier :: nat

definition levels :: "level_entry list" where
  "levels =
     [\<lparr>min_score = 90, label = ''Radiant'', tier = 5\<rparr>,
      \<lparr>min_score = 80, label = ''Inspiring'', tier = 4\<rparr>,
      \<lparr>min_score = 70, label = ''Uplifting'', tier = 3\<rparr>,
      \<lparr>min_score = 60, label = ''Hopeful'', tier = 2\<rparr>,
      \<lparr>min_score = 50, label = ''Encouraging'', tier = 1\<rparr>]"

text \<open>
  The computed \<^verbatim>\<open>level\<close>. The prop \<^verbatim>\<open>score\<close> is a number or \<^verbatim>\<open>null\<close> (its default,
  which Vue also puts in place of an absent score). \<^verbatim>\<open>find\<close> gives the first entry
  that fits or \<^verbatim>\<open>undefined\<close>, in which case \<^verbatim>\<open>||\<close> takes the last entry.
\<close>

definition level :: "real option \<Rightarrow> level_entry option" where
  "level score =
     (case score of
        None \<Rightarrow> None
      | Some sc \<Rightarrow>
          Some (case find (\<lambda>l. sc \<ge> min_score l) levels of
                  Some l \<Rightarrow> l
                | None \<Rightarrow> levels ! (length levels - 1)))"

text \<open>The badge is rendered with \<^verbatim>\<open>v-if="level"\<close>; an entry is an object, hence truthy.\<close>

definition renders_badge :: "real option \<Rightarrow> bool" where
  "renders_badge score \<longleftrightarrow> level score \<noteq> None"

section \<open>The article card (ArticleCard.vue)\<close>

subsection \<open>The summary\<close>

text \<open>
  \<^verbatim>\<open>summary?.replace(/<[^>]*>/g, '').substring(0, 150) || ''\<close>. A string is the list
  of its code units; the only ones the expression tells apart are \<^verbatim>\<open><\<close> and \<^verbatim>\<open>>\<close>.

  \<open>match_tag\<close> is one attempt of the regular expression at the head of the input:
  \<^verbatim>\<open><\<close>, then \<open>match_close\<close> for \<^verbatim>\<open>[^>]*>\<close>, which takes everything up to the first
  \<^verbatim>\<open>>\<close> and fails when there is none. The result is what follows the match.
\<close>

fun match_close :: "string \<Rightarrow> string option" where
  "match_close [] = None"
| "match_close (c # cs) = (if c = CHR ''>'' then Some cs else match_close cs)"

fun match_tag :: "string \<Rightarrow> string option" where
  "match_tag [] = None"
| "match_tag (c # cs) = (if c = CHR ''<'' then match_close cs else None)"

text \<open>
  \<^verbatim>\<open>replace\<close> with the \<^verbatim>\<open>g\<close> flag and an empty replacement: from left to right, a
  match is dropped and the search goes on behind it; where there is no match the code
  unit is kept and the search goes on at the next one.
\<close>

function replace_tags :: "string \<Rightarrow> string" where
  "replace_tags [] = []"
| "replace_tags (c # cs) =
     (case match_tag (c # cs) of
        Some rest \<Rightarrow> replace_tags rest
      | None \<Rightarrow> c # replace_tags cs)"
  by pat_completeness auto
termination
proof (relation "measure length")
  show "wf (measure length)"
    by simp
next
  fix c cs rest
  assume m: "match_tag (c # cs) = Some rest"
  have shorter: "match_close xs = Some r \<Longrightarrow> length r < length xs" for xs r
    by (induction xs) (auto split: if_splits)
  from m have "match_close cs = Some rest"
    by (simp split: if_splits)
  then have "length rest < length cs"
    by (rule shorter)
  then show "(rest, c # cs) \<in> measure length"
    by simp
next
  fix c cs
  show "(cs, c # cs) \<in> measure length"
    by simp
qed

text \<open>\<^verbatim>\<open>regex.test\<close>: does the expression match anywhere in the string?\<close>

fun has_tag :: "string \<Rightarrow> bool" where
  "has_tag [] = False"
| "has_tag (c # cs) = (match_tag (c # cs) \<noteq> None \<or> has_tag cs)"

record article =
  headline :: string
  summary :: "string option"
  source_url :: string

definition cleanSummary :: "article \<Rightarrow> string" where
  "cleanSummary a =
     (case summary a of
        None \<Rightarrow> []
      | Some s \<Rightarrow>
          let r = take 150 (replace_tags s) in
          if r = [] then [] else r)"

subsection \<open>Sharing\<close>

text \<open>
  The card's toast cells, and around them what the handlers act on: the clipboard and
  the texts handed to \<^verbatim>\<open>navigator.clipboard.writeText\<close>.
\<close>

record card =
  showToast :: bool
  toastMessage :: string
  clipboard :: "string option"
  writeText_calls :: "string list"

text \<open>
  \<^verbatim>\<open>copyToClipboard\<close>. \<open>writeText\<close> is \<open>None\<close> when \<^verbatim>\<open>navigator.clipboard\<close> is
  missing: evaluating \<^verbatim>\<open>navigator.clipboard.writeText\<close> then throws a TypeError inside
  the \<^verbatim>\<open>try\<close> before anything is called, and the \<^verbatim>\<open>catch\<close> branch runs. Otherwise
  the call is made with \<^verbatim>\<open>source_url\<close>, and \<open>writeText\<close> is how its promise settles.
\<close>

definition copyToClipboard :: "article \<Rightarrow> unit settled option \<Rightarrow> card \<Rightarrow> card" where
  "copyToClipboard a writeText c =
     (case writeText of
        None \<Rightarrow> c\<lparr>toastMessage := ''Failed to copy'', showToast := True\<rparr>
      | Some outcome \<Rightarrow>
          let c1 = c\<lparr>writeText_calls := writeText_calls c @ [source_url a]\<rparr> in
          (case outcome of
             Inr u \<Rightarrow> c1\<lparr>clipboard := Some (source_url a),
                          toastMessage := ''Link copied!'', showToast := True\<rparr>
           | Inl e \<Rightarrow> c1\<lparr>toastMessage := ''Failed to copy'', showToast := True\<rparr>))"

text \<open>
  \<^verbatim>\<open>handleShare\<close>. \<open>share\<close> is \<open>None\<close> when \<^verbatim>\<open>navigator.share\<close> is missing, and
  otherwise how the call \<^verbatim>\<open>navigator.share(shareData)\<close> settles.
\<close>

definition handleShare ::
  "article \<Rightarrow> unit settled option \<Rightarrow> unit settled option \<Rightarrow> card \<Rightarrow> card" where
  "handleShare a share writeText c =
     (case share of
        Some outcome \<Rightarrow>
          (case outcome of
             Inr u \<Rightarrow> c
           | Inl err \<Rightarrow>
               if error_name err \<noteq> ''AbortError'' then copyToClipboard a writeText c else c)
      | None \<Rightarrow> copyToClipboard a writeText c)"

section \<open>Properties of the gesture handler\<close>

lemma gesture_inv_mounted: "gesture_inv mounted"
  by (simp add: gesture_inv_def mounted_def)

lemma gesture_inv_step:
  assumes "gesture_inv s"
  shows "gesture_inv (step e s)"
proof (cases e)
  case (TouchStart y)
  with assms show ?thesis
    by (auto simp: gesture_inv_def onTouchStart_def split: if_splits)
next
  case (TouchMove y)
  with assms show ?thesis
    by (auto simp: gesture_inv_def onTouchMove_def MAX_PULL_def Let_def split: if_splits)
next
  case TouchEnd
  with assms show ?thesis
    by (auto simp: gesture_inv_def onTouchEnd_def PULL_THRESHOLD_def Let_def split: if_splits)
next
  case (Scroll y)
  with assms show ?thesis
    by (simp add: gesture_inv_def)
next
  case FetchSettled
  with assms show ?thesis
    by (auto simp: gesture_inv_def onTouchEnd_resume_def split: if_splits)
qed

lemma gesture_inv_run: "gesture_inv s \<Longrightarrow> gesture_inv (run es s)"
  by (induction es arbitrary: s) (simp_all add: gesture_inv_step)

lemma gesture_inv_reached: "gesture_inv (run es mounted)"
  by (rule gesture_inv_run [OF gesture_inv_mounted])

lemma run_snoc: "run (es @ [e]) s = step e (run es s)"
  by (induction es arbitrary: s) simp_all

text \<open>
  Claim C1. In every state the handlers can reach, a touch-end event makes exactly one
  call \<^verbatim>\<open>fetchArticles(true)\<close> when the pull distance is at least 80 and makes no call
  when it is below 80; the rest of the handler, run when the fetch has settled, makes
  no further fetch.
\<close>

theorem touch_end_fetches_by_threshold:
  "(pullDistance (gest (run es mounted)) \<ge> 80 \<longrightarrow>
      calls (step TouchEnd (run es mounted)) = calls (run es mounted) @ [FetchArticles True]) \<and>
   (pullDistance (gest (run es mounted)) < 80 \<longrightarrow>
      calls (step TouchEnd (run es mounted)) = calls (run es mounted)) \<and>
   refresh_fetches (calls (step FetchSettled (run es mounted))) =
      refresh_fetches (calls (run es mounted))"
proof -
  let ?s = "run es mounted"
  have inv: "gesture_inv ?s"
    by (rule gesture_inv_reached)
  have pulled: "isPulling (gest ?s)" if "pullDistance (gest ?s) \<ge> 80"
    using inv that by (auto simp: gesture_inv_def split: if_splits)
  have one: "calls (step TouchEnd ?s) = calls ?s @ [FetchArticles True]"
    if "pullDistance (gest ?s) \<ge> 80"
    using pulled [OF that] that by (simp add: onTouchEnd_def PULL_THRESHOLD_def)
  have none: "calls (step TouchEnd ?s) = calls ?s" if "pullDistance (gest ?s) < 80"
    using that by (simp add: onTouchEnd_def PULL_THRESHOLD_def)
  have resume: "refresh_fetches (calls (step FetchSettled ?s)) = refresh_fetches (calls ?s)"
    by (simp add: onTouchEnd_resume_def refresh_fetches_def)
  from one none resume show ?thesis
    by blast
qed

theorem touch_end_fetches_by_threshold_witness:
  "pullDistance (gest (run [TouchStart 100, TouchMove 300] mounted)) = 100 \<and>
   calls (run [TouchStart 100, TouchMove 300, TouchEnd] mounted) = [FetchArticles True] \<and>
   pullDistance (gest (run [TouchStart 100, TouchMove 250] mounted)) = 75 \<and>
   calls (run [TouchStart 100, TouchMove 250, TouchEnd] mounted) = []"
proof -
  have a: "pullDistance (gest (run [TouchStart 100, TouchMove 300] mounted)) = 100"
    by (simp add: mounted_def onTouchStart_def onTouchMove_def MAX_PULL_def)
  have b: "pullDistance (gest (run [TouchStart 100, TouchMove 250] mounted)) = 75"
    by (simp add: mounted_def onTouchStart_def onTouchMove_def MAX_PULL_def)
  have c: "calls (run [TouchStart 100, TouchMove 300] mounted) = []"
    by (simp add: mounted_def)
  have d: "calls (run [TouchStart 100, TouchMove 250] mounted) = []"
    by (simp add: mounted_def)
  have "calls (step TouchEnd (run [TouchStart 100, TouchMove 300] mounted)) = [FetchArticles True]"
    using touch_end_fetches_by_threshold [of "[TouchStart 100, TouchMove 300]"] a c by simp
  moreover have "calls (step TouchEnd (run [TouchStart 100, TouchMove 250] mounted)) = []"
    using touch_end_fetches_by_threshold [of "[TouchStart 100, TouchMove 250]"] b d by simp
  ultimately show ?thesis
    using a b run_snoc [of "[TouchStart 100, TouchMove 300]" TouchEnd mounted]
      run_snoc [of "[TouchStart 100, TouchMove 250]" TouchEnd mounted]
    by simp
qed


text \<open>
  Claim C2, as amended. In every state the handlers can reach, a touch-start event
  that arrives while a refresh is in flight or while the scroll offset is greater than
  zero leaves the whole state unchanged; no pull is active while a refresh is in
  flight; and the number of refresh fetches in flight is one while \<^verbatim>\<open>isRefreshing\<close>
  is set and zero otherwise, so never more than one.
\<close>

theorem touch_start_ignored_single_refresh:
  "(isRefreshing (gest (run es mounted)) \<or> windowScrollY (run es mounted) > 0 \<longrightarrow>
      step (TouchStart y) (run es mounted) = run es mounted) \<and>
   (isRefreshing (gest (run es mounted)) \<longrightarrow>
      \<not> isPulling (gest (step (TouchStart y) (run es mounted)))) \<and>
   awaiting (run es mounted) = (if isRefreshing (gest (run es mounted)) then 1 else 0) \<and>
   awaiting (run es mounted) \<le> 1"
proof -
  let ?s = "run es mounted"
  have inv: "gesture_inv ?s"
    by (rule gesture_inv_reached)
  have ignored: "step (TouchStart y) ?s = ?s"
    if "isRefreshing (gest ?s) \<or> windowScrollY ?s > 0"
    using that by (auto simp: onTouchStart_def)
  have idle: "\<not> isPulling (gest (step (TouchStart y) ?s))" if "isRefreshing (gest ?s)"
    using inv that by (simp add: gesture_inv_def onTouchStart_def)
  have count: "awaiting ?s = (if isRefreshing (gest ?s) then 1 else 0)"
    using inv by (simp add: gesture_inv_def split: if_splits)
  then have "awaiting ?s \<le> 1"
    by simp
  with ignored idle count show ?thesis
    by blast
qed

theorem touch_start_ignored_single_refresh_witness:
  "isRefreshing (gest (run [TouchStart 100, TouchMove 300, TouchEnd] mounted)) \<and>
   run [TouchStart 100, TouchMove 300, TouchEnd, TouchStart 40] mounted =
     run [TouchStart 100, TouchMove 300, TouchEnd] mounted \<and>
   awaiting (run [TouchStart 100, TouchMove 300, TouchEnd] mounted) = 1 \<and>
   windowScrollY (run [Scroll 25] mounted) > 0 \<and>
   run [Scroll 25, TouchStart 40] mounted = run [Scroll 25] mounted"
proof -
  have r: "isRefreshing (gest (run [TouchStart 100, TouchMove 300, TouchEnd] mounted))"
    by (simp add: mounted_def onTouchStart_def onTouchMove_def onTouchEnd_def
        MAX_PULL_def PULL_THRESHOLD_def)
  have w: "windowScrollY (run [Scroll 25] mounted) > 0"
    by (simp add: mounted_def)
  have "step (TouchStart 40) (run [TouchStart 100, TouchMove 300, TouchEnd] mounted) =
      run [TouchStart 100, TouchMove 300, TouchEnd] mounted"
    using touch_start_ignored_single_refresh
      [of "[TouchStart 100, TouchMove 300, TouchEnd]" 40] r by blast
  moreover have "awaiting (run [TouchStart 100, TouchMove 300, TouchEnd] mounted) = 1"
    using touch_start_ignored_single_refresh
      [of "[TouchStart 100, TouchMove 300, TouchEnd]" 40] r by simp
  moreover have "step (TouchStart 40) (run [Scroll 25] mounted) = run [Scroll 25] mounted"
    using touch_start_ignored_single_refresh [of "[Scroll 25]" 40] w by blast
  ultimately show ?thesis
    using r w run_snoc [of "[TouchStart 100, TouchMove 300, TouchEnd]" "TouchStart 40" mounted]
      run_snoc [of "[Scroll 25]" "TouchStart 40" mounted]
    by simp
qed

text \<open>
  Claim C2 as first stated, with "non-zero" for the scroll offset, does not hold. The
  guard of \<^verbatim>\<open>onTouchStart\<close> is \<^verbatim>\<open>window.scrollY > 0\<close>, not \<^verbatim>\<open>!== 0\<close>: at a
  negative offset, which a window reports while the page is pulled past its top on a
  browser with elastic overscroll, the scroll offset is not zero and a touch-start
  still begins a pull.
\<close>

theorem touch_start_negative_offset_counterexample:
  "windowScrollY (run [Scroll (- 1)] mounted) \<noteq> 0 \<and>
   \<not> isRefreshing (gest (run [Scroll (- 1)] mounted)) \<and>
   \<not> isPulling (gest (run [Scroll (- 1)] mounted)) \<and>
   isPulling (gest (step (TouchStart 10) (run [Scroll (- 1)] mounted))) \<and>
   step (TouchStart 10) (run [Scroll (- 1)] mounted) \<noteq> run [Scroll (- 1)] mounted"
proof -
  have a: "\<not> isPulling (gest (run [Scroll (- 1)] mounted))"
    by (simp add: mounted_def)
  have b: "isPulling (gest (step (TouchStart 10) (run [Scroll (- 1)] mounted)))"
    by (simp add: mounted_def onTouchStart_def)
  from a b have "step (TouchStart 10) (run [Scroll (- 1)] mounted) \<noteq> run [Scroll (- 1)] mounted"
    by metis
  with a b show ?thesis
    by (simp add: mounted_def)
qed

text \<open>
  Claim C3. In every reachable state with a pull active, a touch-move event sets the
  pull distance to \<open>min (delta * 0.5) 120\<close> when the delta from \<^verbatim>\<open>startY\<close> is positive
  and the scroll offset is 0, and to 0 when the touch has moved upward or the scroll
  offset is not 0; in both cases the pull stays active and \<^verbatim>\<open>startY\<close> is kept.
  No event other than touch-end ends the pull.
\<close>

theorem touch_move_pull_distance:
  assumes "isPulling (gest (run es mounted))"
  shows
    "(y - startY (gest (run es mounted)) > 0 \<and> windowScrollY (run es mounted) = 0 \<longrightarrow>
        pullDistance (gest (step (TouchMove y) (run es mounted))) =
          min ((y - startY (gest (run es mounted))) * 0.5) 120) \<and>
     (y - startY (gest (run es mounted)) < 0 \<or> windowScrollY (run es mounted) \<noteq> 0 \<longrightarrow>
        pullDistance (gest (step (TouchMove y) (run es mounted))) = 0) \<and>
     isPulling (gest (step (TouchMove y) (run es mounted))) \<and>
     \<not> isRefreshing (gest (step (TouchMove y) (run es mounted))) \<and>
     startY (gest (step (TouchMove y) (run es mounted))) = startY (gest (run es mounted)) \<and>
     (e \<noteq> TouchEnd \<longrightarrow> isPulling (gest (step e (run es mounted))))"
proof -
  let ?s = "run es mounted"
  have inv: "gesture_inv ?s"
    by (rule gesture_inv_reached)
  with assms have active: "\<not> isRefreshing (gest ?s)"
    by (auto simp: gesture_inv_def split: if_splits)
  have stays: "isPulling (gest (step e ?s))" if "e \<noteq> TouchEnd"
    using that assms
    by (cases e) (simp_all add: onTouchStart_def onTouchMove_def onTouchEnd_resume_def Let_def)
  from assms active have
    "(y - startY (gest ?s) > 0 \<and> windowScrollY ?s = 0 \<longrightarrow>
        pullDistance (gest (step (TouchMove y) ?s)) = min ((y - startY (gest ?s)) * 0.5) 120) \<and>
     (y - startY (gest ?s) < 0 \<or> windowScrollY ?s \<noteq> 0 \<longrightarrow>
        pullDistance (gest (step (TouchMove y) ?s)) = 0) \<and>
     isPulling (gest (step (TouchMove y) ?s)) \<and>
     \<not> isRefreshing (gest (step (TouchMove y) ?s)) \<and>
     startY (gest (step (TouchMove y) ?s)) = startY (gest ?s)"
    by (auto simp: onTouchMove_def MAX_PULL_def Let_def)
  with stays show ?thesis
    by blast
qed

theorem touch_move_pull_distance_witness:
  "isPulling (gest (run [TouchStart 100] mounted)) \<and>
   pullDistance (gest (run [TouchStart 100, TouchMove 300] mounted)) = 100 \<and>
   pullDistance (gest (run [TouchStart 100, TouchMove 500] mounted)) = 120 \<and>
   pullDistance (gest (run [TouchStart 100, TouchMove 300, TouchMove 60] mounted)) = 0 \<and>
   isPulling (gest (run [TouchStart 100, TouchMove 300, TouchMove 60] mounted))"
proof -
  have p: "isPulling (gest (run [TouchStart 100] mounted))"
    by (simp add: mounted_def onTouchStart_def)
  have s0: "startY (gest (run [TouchStart 100] mounted)) = 100"
    "windowScrollY (run [TouchStart 100] mounted) = 0"
    by (simp_all add: mounted_def onTouchStart_def)
  have a: "pullDistance (gest (step (TouchMove 300) (run [TouchStart 100] mounted))) = 100"
    using touch_move_pull_distance [OF p, of 300] s0 by simp
  have b: "pullDistance (gest (step (TouchMove 500) (run [TouchStart 100] mounted))) = 120"
    using touch_move_pull_distance [OF p, of 500] s0 by simp
  have p2: "isPulling (gest (run [TouchStart 100, TouchMove 300] mounted))"
    using touch_move_pull_distance [OF p, of 300] run_snoc [of "[TouchStart 100]" "TouchMove 300" mounted]
    by simp
  have s1: "startY (gest (run [TouchStart 100, TouchMove 300] mounted)) = 100"
    using touch_move_pull_distance [OF p, of 300] s0
      run_snoc [of "[TouchStart 100]" "TouchMove 300" mounted]
    by simp
  have c: "pullDistance (gest (step (TouchMove 60) (run [TouchStart 100, TouchMove 300] mounted))) = 0
      \<and> isPulling (gest (step (TouchMove 60) (run [TouchStart 100, TouchMove 300] mounted)))"
    using touch_move_pull_distance [OF p2, of 60] s1 by simp
  from p a b c show ?thesis
    using run_snoc [of "[TouchStart 100]" "TouchMove 300" mounted]
      run_snoc [of "[TouchStart 100]" "TouchMove 500" mounted]
      run_snoc [of "[TouchStart 100, TouchMove 300]" "TouchMove 60" mounted]
    by simp
qed

text \<open>
  Claim C4. In every state the handlers can reach, whatever the events were, the pull
  distance lies between 0 and 120. When the touch-end handler has finished the pull
  distance is 0: right after the event when it does not refresh, and after the
  remainder of the handler has run when it does.
\<close>

theorem pull_distance_range_and_reset:
  "0 \<le> pullDistance (gest (run es mounted)) \<and>
   pullDistance (gest (run es mounted)) \<le> 120 \<and>
   (\<not> isRefreshing (gest (step TouchEnd (run es mounted))) \<longrightarrow>
      pullDistance (gest (step TouchEnd (run es mounted))) = 0) \<and>
   (awaiting (run es mounted) > 0 \<longrightarrow>
      pullDistance (gest (step FetchSettled (run es mounted))) = 0 \<and>
      \<not> isRefreshing (gest (step FetchSettled (run es mounted))))"
proof -
  let ?s = "run es mounted"
  have inv: "gesture_inv ?s"
    by (rule gesture_inv_reached)
  then have range: "0 \<le> pullDistance (gest ?s) \<and> pullDistance (gest ?s) \<le> 120"
    by (simp add: gesture_inv_def)
  have ended: "pullDistance (gest (step TouchEnd ?s)) = 0"
    if "\<not> isRefreshing (gest (step TouchEnd ?s))"
    using inv that
    by (auto simp: gesture_inv_def onTouchEnd_def PULL_THRESHOLD_def Let_def split: if_splits)
  have resumed: "pullDistance (gest (step FetchSettled ?s)) = 0 \<and>
      \<not> isRefreshing (gest (step FetchSettled ?s))"
    if "awaiting ?s > 0"
    using that by (simp add: onTouchEnd_resume_def)
  from range ended resumed show ?thesis
    by blast
qed

theorem pull_distance_range_and_reset_witness:
  "pullDistance (gest (run [TouchStart 100, TouchMove 500] mounted)) = 120 \<and>
   pullDistance (gest (run [TouchStart 100, TouchMove 500, TouchEnd] mounted)) = 60 \<and>
   awaiting (run [TouchStart 100, TouchMove 500, TouchEnd] mounted) > 0 \<and>
   pullDistance (gest (run [TouchStart 100, TouchMove 500, TouchEnd, FetchSettled] mounted)) = 0 \<and>
   \<not> isRefreshing (gest (run [TouchStart 100, TouchMove 250, TouchEnd] mounted)) \<and>
   pullDistance (gest (run [TouchStart 100, TouchMove 250, TouchEnd] mounted)) = 0"
proof -
  have a: "pullDistance (gest (run [TouchStart 100, TouchMove 500] mounted)) = 120"
    by (simp add: mounted_def onTouchStart_def onTouchMove_def MAX_PULL_def)
  have b: "pullDistance (gest (run [TouchStart 100, TouchMove 500, TouchEnd] mounted)) = 60"
    "awaiting (run [TouchStart 100, TouchMove 500, TouchEnd] mounted) > 0"
    by (simp_all add: mounted_def onTouchStart_def onTouchMove_def onTouchEnd_def
        MAX_PULL_def PULL_THRESHOLD_def)
  have c: "\<not> isRefreshing (gest (step TouchEnd (run [TouchStart 100, TouchMove 250] mounted)))"
    by (simp add: mounted_def onTouchStart_def onTouchMove_def onTouchEnd_def
        MAX_PULL_def PULL_THRESHOLD_def)
  have d: "pullDistance (gest (step FetchSettled
      (run [TouchStart 100, TouchMove 500, TouchEnd] mounted))) = 0"
    using pull_distance_range_and_reset [of "[TouchStart 100, TouchMove 500, TouchEnd]"] b(2)
    by blast
  have e: "pullDistance (gest (step TouchEnd (run [TouchStart 100, TouchMove 250] mounted))) = 0"
    using pull_distance_range_and_reset [of "[TouchStart 100, TouchMove 250]"] c
    by blast
  from a b c d e show ?thesis
    using run_snoc [of "[TouchStart 100, TouchMove 500, TouchEnd]" FetchSettled mounted]
      run_snoc [of "[TouchStart 100, TouchMove 250]" TouchEnd mounted]
    by simp
qed

section \<open>Properties of the load-more control\<close>

text \<open>
  Claim C5. \<^verbatim>\<open>loadMore\<close> leaves the state as it is and issues no fetch when
  \<^verbatim>\<open>hasMore\<close> is false or \<^verbatim>\<open>loading\<close> is true. The template renders the button only
  when \<^verbatim>\<open>hasMore\<close> is true and \<^verbatim>\<open>loading\<close> is false, so in the other case there is
  nothing to click.
\<close>

theorem load_more_guarded:
  "(\<not> hasMore f \<or> loading f \<longrightarrow> loadMore f = (f, [])) \<and>
   (load_more_slot n (hasMore f) (loading f) = LoadMoreButton \<longrightarrow> hasMore f \<and> \<not> loading f) \<and>
   (\<not> hasMore f \<or> loading f \<longrightarrow> click_load_more f = None)"
  by (simp add: loadMore_def load_more_slot_def click_load_more_def)

theorem load_more_guarded_witness:
  "loading \<lparr>articles = [1, 2], page = 1, hasMore = True, total = 9, loading = True, error = None\<rparr> \<and>
   loadMore \<lparr>articles = [1, 2], page = 1, hasMore = True, total = 9, loading = True, error = None\<rparr> =
     (\<lparr>articles = [1, 2], page = 1, hasMore = True, total = 9, loading = True, error = None\<rparr>, []) \<and>
   click_load_more
     \<lparr>articles = [1, 2], page = 1, hasMore = True, total = 9, loading = True, error = None\<rparr> = None \<and>
   load_more_slot 2 True False = LoadMoreButton"
  using load_more_guarded
    [of "\<lparr>articles = [1, 2], page = 1, hasMore = True, total = 9, loading = True, error = None\<rparr>" 2]
  by (simp add: load_more_slot_def)

section \<open>Properties of the auxiliary requests\<close>

text \<open>
  Claim C6. When \<^verbatim>\<open>getCategories\<close> or \<^verbatim>\<open>getRegions\<close> is rejected, \<^verbatim>\<open>fetchFilters\<close>
  settles normally with the state it was given, so both lists stay empty and the filter
  bar is not rendered; when \<^verbatim>\<open>getStats\<close> is rejected, \<^verbatim>\<open>fetchStats\<close> does the same
  and the today counter stays absent. However the three requests settle, no error
  leaves either function, the feed's cells are untouched and the feed makes the calls
  of its own \<^verbatim>\<open>onMounted\<close>: \<^verbatim>\<open>fetchArticles(true)\<close> when its list is empty.
\<close>

theorem auxiliary_failures_are_silent:
  "(isl getCategories \<or> isl getRegions \<longrightarrow>
      fetchFilters getCategories getRegions a = Inr a \<and>
      categories (page_app (mount_page getCategories getRegions getStats f)) = [] \<and>
      regions (page_app (mount_page getCategories getRegions getStats f)) = [] \<and>
      \<not> hasFilters (page_app (mount_page getCategories getRegions getStats f))) \<and>
   (isl getStats \<longrightarrow>
      fetchStats getStats h = Inr h \<and>
      todayCount (page_header (mount_page getCategories getRegions getStats f)) = None \<and>
      \<not> shows_today_counter (page_header (mount_page getCategories getRegions getStats f))) \<and>
   uncaught (mount_page getCategories getRegions getStats f) = [] \<and>
   page_feed (mount_page getCategories getRegions getStats f) = f \<and>
   feed_calls (mount_page getCategories getRegions getStats f) = feed_onMounted f \<and>
   (articles f = [] \<longrightarrow>
      feed_calls (mount_page getCategories getRegions getStats f) = [FetchArticles True])"
proof -
  let ?p = "mount_page getCategories getRegions getStats f"
  have filters: "fetchFilters getCategories getRegions a = Inr a"
    if "isl getCategories \<or> isl getRegions" for a
    using that by (auto simp: fetchFilters_def promise_all_def split: sum.splits)
  have stats: "fetchStats getStats h = Inr h" if "isl getStats" for h
    using that by (auto simp: fetchStats_def split: sum.splits)
  have caught_filters: "\<exists>a'. fetchFilters getCategories getRegions app_setup = Inr a'"
    by (simp add: fetchFilters_def promise_all_def split: sum.splits prod.splits)
  have caught_stats: "\<exists>h'. fetchStats getStats header_setup = Inr h'"
    by (simp add: fetchStats_def split: sum.splits)
  have app: "page_app ?p = app_setup" if "isl getCategories \<or> isl getRegions"
    using filters [OF that, of app_setup]
    by (simp add: mount_page_def settle_def Let_def split: prod.splits)
  have header: "page_header ?p = header_setup" if "isl getStats"
    using stats [OF that, of header_setup]
    by (simp add: mount_page_def settle_def Let_def split: prod.splits)
  have none: "uncaught ?p = []"
    using caught_filters caught_stats
    by (auto simp: mount_page_def settle_def Let_def split: prod.splits)
  have feed: "page_feed ?p = f" "feed_calls ?p = feed_onMounted f"
    by (simp_all add: mount_page_def Let_def split: prod.splits)
  have first: "feed_calls ?p = [FetchArticles True]" if "articles f = []"
    using that feed(2) by (simp add: feed_onMounted_def)
  from filters stats app header none feed first show ?thesis
    by (simp add: app_setup_def header_setup_def hasFilters_def shows_today_counter_def)
qed

theorem auxiliary_failures_are_silent_witness:
  "isl (Inl (JsError ''TypeError'') :: facet list settled) \<and>
   categories (page_app (mount_page (Inl (JsError ''TypeError'')) (Inr [(''Europe'', 3)])
     (Inl (JsError ''TypeError''))
     \<lparr>articles = [], page = 1, hasMore = False, total = 0, loading = False, error = None\<rparr>)) = [] \<and>
   regions (page_app (mount_page (Inl (JsError ''TypeError'')) (Inr [(''Europe'', 3)])
     (Inl (JsError ''TypeError''))
     \<lparr>articles = [], page = 1, hasMore = False, total = 0, loading = False, error = None\<rparr>)) = [] \<and>
   todayCount (page_header (mount_page (Inl (JsError ''TypeError'')) (Inr [(''Europe'', 3)])
     (Inl (JsError ''TypeError''))
     \<lparr>articles = [], page = 1, hasMore = False, total = 0, loading = False, error = None\<rparr>)) = None \<and>
   feed_calls (mount_page (Inl (JsError ''TypeError'')) (Inr [(''Europe'', 3)])
     (Inl (JsError ''TypeError''))
     \<lparr>articles = [], page = 1, hasMore = False, total = 0, loading = False, error = None\<rparr>) =
     [FetchArticles True]"
  using auxiliary_failures_are_silent
    [of "Inl (JsError ''TypeError'')" "Inr [(''Europe'', 3)]" app_setup "Inl (JsError ''TypeError'')"
      "\<lparr>articles = [], page = 1, hasMore = False, total = 0, loading = False, error = None\<rparr>"
      header_setup]
  by (simp add: feed_onMounted_def)

section \<open>Properties of the filter bar\<close>

text \<open>
  Claim C7. A click on the button of the active category, region or level emits that
  same value again, for the same dimension; the emitted value is \<^verbatim>\<open>null\<close> exactly when
  the button clicked is one of the three "All" buttons.
\<close>

theorem filter_bar_reclick_keeps_filter:
  "(activeCategory p = Some n \<longrightarrow> click p (CategoryButton n) = FilterChange Category (Name n)) \<and>
   (activeRegion p = Some n \<longrightarrow> click p (RegionButton n) = FilterChange Region (Name n)) \<and>
   (activeMinScore p = Some m \<longrightarrow> click p (LevelButton m) = FilterChange MinScore (Score m)) \<and>
   (emitted_value (click p b) = Null \<longleftrightarrow> is_all b)"
  by (cases b) (simp_all add: selectCategory_def selectRegion_def selectMinScore_def)

theorem filter_bar_reclick_keeps_filter_witness:
  "activeCategory \<lparr>prop_categories = [(''health'', 4)], prop_regions = [],
      activeCategory = Some ''health'', activeRegion = None, activeMinScore = Some 80\<rparr> =
     Some ''health'' \<and>
   click \<lparr>prop_categories = [(''health'', 4)], prop_regions = [],
      activeCategory = Some ''health'', activeRegion = None, activeMinScore = Some 80\<rparr>
     (CategoryButton ''health'') = FilterChange Category (Name ''health'') \<and>
   click \<lparr>prop_categories = [(''health'', 4)], prop_regions = [],
      activeCategory = Some ''health'', activeRegion = None, activeMinScore = Some 80\<rparr>
     (LevelButton 80) = FilterChange MinScore (Score 80) \<and>
   emitted_value (click \<lparr>prop_categories = [(''health'', 4)], prop_regions = [],
      activeCategory = Some ''health'', activeRegion = None, activeMinScore = Some 80\<rparr>
     AllCategories) = Null \<and>
   buttons \<lparr>prop_categories = [(''health'', 4)], prop_regions = [],
      activeCategory = Some ''health'', activeRegion = None, activeMinScore = Some 80\<rparr> =
     [AllCategories, CategoryButton ''health'', AllLevels,
      LevelButton 90, LevelButton 80, LevelButton 70, LevelButton 60]"
  using filter_bar_reclick_keeps_filter
    [of "\<lparr>prop_categories = [(''health'', 4)], prop_regions = [],
      activeCategory = Some ''health'', activeRegion = None, activeMinScore = Some 80\<rparr>"
      "''health''" 80 AllCategories]
  by (simp add: buttons_def ratingLevels_def)

section \<open>Properties of the hope level badge\<close>

text \<open>
  Claim C8. A score that is a number gets exactly one entry of \<^verbatim>\<open>levels\<close>: Radiant
  from 90, Inspiring from 80, Uplifting from 70, Hopeful from 60 and Encouraging for
  every other score, those under 50 included; the badge is rendered. With \<^verbatim>\<open>null\<close>
  for a score there is no level and no badge.
\<close>

theorem hope_level_tiers:
  "level None = None \<and> \<not> renders_badge None \<and> renders_badge (Some sc) \<and>
   (\<exists>l. level (Some sc) = Some l \<and> l \<in> set levels \<and>
      label l =
        (if sc \<ge> 90 then ''Radiant'' else if sc \<ge> 80 then ''Inspiring''
         else if sc \<ge> 70 then ''Uplifting'' else if sc \<ge> 60 then ''Hopeful''
         else ''Encouraging'') \<and>
      tier l =
        (if sc \<ge> 90 then 5 else if sc \<ge> 80 then 4
         else if sc \<ge> 70 then 3 else if sc \<ge> 60 then 2 else 1))"
  by (simp add: level_def renders_badge_def levels_def)

theorem hope_level_tiers_witness:
  "map_option label (level (Some 95)) = Some ''Radiant'' \<and>
   map_option label (level (Some 80)) = Some ''Inspiring'' \<and>
   map_option label (level (Some 79.5)) = Some ''Uplifting'' \<and>
   map_option label (level (Some 60)) = Some ''Hopeful'' \<and>
   map_option label (level (Some 55)) = Some ''Encouraging'' \<and>
   map_option label (level (Some 12)) = Some ''Encouraging'' \<and>
   level None = None"
  using hope_level_tiers [of 95] hope_level_tiers [of 80] hope_level_tiers [of "79.5"]
    hope_level_tiers [of 60] hope_level_tiers [of 55] hope_level_tiers [of 12]
  by auto

section \<open>Properties of the summary\<close>

lemma match_close_None: "match_close cs = None \<longleftrightarrow> CHR ''>'' \<notin> set cs"
  by (induction cs) auto

lemma replace_tags_subset: "set (replace_tags s) \<subseteq> set s"
proof (induction s rule: replace_tags.induct)
  case 1
  show ?case by simp
next
  case (2 c cs)
  show ?case
  proof (cases "match_tag (c # cs)")
    case None
    with 2 show ?thesis by auto
  next
    case (Some rest)
    have sub: "match_close xs = Some r \<Longrightarrow> set r \<subseteq> set xs" for xs r
      by (induction xs) (auto split: if_splits)
    from Some have "match_close cs = Some rest"
      by (simp split: if_splits)
    then have "set rest \<subseteq> set cs"
      by (rule sub)
    with 2 Some show ?thesis by auto
  qed
qed

lemma replace_tags_no_close_after_open:
  "replace_tags s = pre @ CHR ''<'' # post \<Longrightarrow> CHR ''>'' \<notin> set post"
proof (induction s arbitrary: pre rule: replace_tags.induct)
  case 1
  then show ?case by simp
next
  case (2 c cs)
  show ?case
  proof (cases "match_tag (c # cs)")
    case (Some rest)
    with 2 show ?thesis by simp
  next
    case None
    with "2.prems" have eq: "c # replace_tags cs = pre @ CHR ''<'' # post"
      by simp
    show ?thesis
    proof (cases pre)
      case Nil
      with eq have c: "c = CHR ''<''" and post: "post = replace_tags cs"
        by simp_all
      from None c have "match_close cs = None"
        by simp
      then have "CHR ''>'' \<notin> set cs"
        by (simp add: match_close_None)
      with post replace_tags_subset [of cs] show ?thesis
        by auto
    next
      case (Cons d pre')
      with eq have "replace_tags cs = pre' @ CHR ''<'' # post"
        by simp
      with "2.IH" None show ?thesis
        by blast
    qed
  qed
qed

lemma has_tag_iff:
  "has_tag s \<longleftrightarrow> (\<exists>pre mid post. s = pre @ CHR ''<'' # mid @ CHR ''>'' # post)"
proof (induction s)
  case Nil
  then show ?case by simp
next
  case (Cons c cs)
  have here: "match_tag (c # cs) \<noteq> None \<longleftrightarrow> (\<exists>mid post. c # cs = CHR ''<'' # mid @ CHR ''>'' # post)"
  proof -
    have "match_tag (c # cs) \<noteq> None \<longleftrightarrow> c = CHR ''<'' \<and> CHR ''>'' \<in> set cs"
      using match_close_None [of cs] by auto
    also have "\<dots> \<longleftrightarrow> (\<exists>mid post. c # cs = CHR ''<'' # mid @ CHR ''>'' # post)"
      by (auto simp: in_set_conv_decomp)
    finally show ?thesis .
  qed
  show ?case
  proof
    assume "has_tag (c # cs)"
    then consider "match_tag (c # cs) \<noteq> None" | "has_tag cs"
      by auto
    then show "\<exists>pre mid post. c # cs = pre @ CHR ''<'' # mid @ CHR ''>'' # post"
    proof cases
      case 1
      with here obtain mid post where "c # cs = [] @ CHR ''<'' # mid @ CHR ''>'' # post"
        by auto
      then show ?thesis by blast
    next
      case 2
      with Cons obtain pre mid post where "cs = pre @ CHR ''<'' # mid @ CHR ''>'' # post"
        by blast
      then have "c # cs = (c # pre) @ CHR ''<'' # mid @ CHR ''>'' # post"
        by simp
      then show ?thesis by blast
    qed
  next
    assume "\<exists>pre mid post. c # cs = pre @ CHR ''<'' # mid @ CHR ''>'' # post"
    then obtain pre mid post where eq: "c # cs = pre @ CHR ''<'' # mid @ CHR ''>'' # post"
      by blast
    show "has_tag (c # cs)"
    proof (cases pre)
      case Nil
      with eq here show ?thesis by auto
    next
      case (Cons d pre')
      with eq have "cs = pre' @ CHR ''<'' # mid @ CHR ''>'' # post"
        by simp
      with Cons.IH show ?thesis by auto
    qed
  qed
qed

lemma take_replace_tags_no_tag:
  "take k (replace_tags s) \<noteq> pre @ CHR ''<'' # mid @ CHR ''>'' # post"
proof
  assume eq: "take k (replace_tags s) = pre @ CHR ''<'' # mid @ CHR ''>'' # post"
  have "replace_tags s = take k (replace_tags s) @ drop k (replace_tags s)"
    by simp
  with eq have "replace_tags s = pre @ CHR ''<'' # (mid @ CHR ''>'' # post @ drop k (replace_tags s))"
    by simp
  from replace_tags_no_close_after_open [OF this] show False
    by simp
qed

text \<open>
  Claim C9. The displayed summary holds no \<^verbatim>\<open><\<close> with a \<^verbatim>\<open>>\<close> anywhere behind it:
  the regular expression finds nothing in it, and it has no part of the form
  \<^verbatim>\<open><...>\<close>. It is at most 150 code units long, and it is the empty string when the
  article has no summary.
\<close>

theorem clean_summary_has_no_tags:
  "\<not> has_tag (cleanSummary a) \<and>
   \<not> (\<exists>pre mid post. cleanSummary a = pre @ CHR ''<'' # mid @ CHR ''>'' # post) \<and>
   length (cleanSummary a) \<le> 150 \<and>
   (summary a = None \<longrightarrow> cleanSummary a = [])"
proof -
  have no: "cleanSummary a \<noteq> pre @ CHR ''<'' # mid @ CHR ''>'' # post" for pre mid post
    using take_replace_tags_no_tag [of 150 _ pre mid post]
    by (auto simp: cleanSummary_def Let_def split: option.splits)
  then have "\<not> has_tag (cleanSummary a)"
    by (simp add: has_tag_iff)
  moreover have "length (cleanSummary a) \<le> 150"
    by (simp add: cleanSummary_def Let_def split: option.splits)
  moreover have "summary a = None \<longrightarrow> cleanSummary a = []"
    by (simp add: cleanSummary_def)
  ultimately show ?thesis
    using no by blast
qed

theorem clean_summary_has_no_tags_witness:
  "cleanSummary \<lparr>headline = ''Reef'', summary = Some ''<p>Good <b>news</b> today</p>'',
      source_url = ''https://example.org/reef''\<rparr> = ''Good news today'' \<and>
   \<not> has_tag (cleanSummary \<lparr>headline = ''Reef'',
      summary = Some ''<p>Good <b>news</b> today</p>'',
      source_url = ''https://example.org/reef''\<rparr>) \<and>
   cleanSummary \<lparr>headline = ''Reef'', summary = None,
      source_url = ''https://example.org/reef''\<rparr> = []"
  using clean_summary_has_no_tags
    [of "\<lparr>headline = ''Reef'', summary = Some ''<p>Good <b>news</b> today</p>'',
      source_url = ''https://example.org/reef''\<rparr>"]
    clean_summary_has_no_tags
    [of "\<lparr>headline = ''Reef'', summary = None, source_url = ''https://example.org/reef''\<rparr>"]
  by (simp add: cleanSummary_def)

section \<open>Properties of sharing\<close>

text \<open>
  Claim C10. Without \<^verbatim>\<open>navigator.share\<close>, or when sharing is rejected with an error
  whose name is not \<^verbatim>\<open>AbortError\<close>, the card falls back to the clipboard and the
  toast is shown. When \<^verbatim>\<open>writeText\<close> succeeds it was called once with the article's
  \<^verbatim>\<open>source_url\<close>, the URL is on the clipboard and the toast says "Link copied!".
  When the clipboard fails the toast says "Failed to copy" and the clipboard is as it
  was: either \<^verbatim>\<open>writeText\<close> was called once with the \<^verbatim>\<open>source_url\<close> and was rejected,
  or \<^verbatim>\<open>navigator.clipboard\<close> is missing and no call was made. A share rejected with
  \<^verbatim>\<open>AbortError\<close>, like one that succeeds, changes nothing: no copy, no toast.
\<close>

theorem share_falls_back_to_clipboard:
  "(share = None \<or> (\<exists>err. share = Some (Inl err) \<and> error_name err \<noteq> ''AbortError'') \<longrightarrow>
      showToast (handleShare a share writeText c) \<and>
      (case writeText of
         Some (Inr u) \<Rightarrow>
           writeText_calls (handleShare a share writeText c) =
             writeText_calls c @ [source_url a] \<and>
           toastMessage (handleShare a share writeText c) = ''Link copied!'' \<and>
           clipboard (handleShare a share writeText c) = Some (source_url a)
       | Some (Inl e) \<Rightarrow>
           writeText_calls (handleShare a share writeText c) =
             writeText_calls c @ [source_url a] \<and>
           toastMessage (handleShare a share writeText c) = ''Failed to copy'' \<and>
           clipboard (handleShare a share writeText c) = clipboard c
       | None \<Rightarrow>
           writeText_calls (handleShare a share writeText c) = writeText_calls c \<and>
           toastMessage (handleShare a share writeText c) = ''Failed to copy'' \<and>
           clipboard (handleShare a share writeText c) = clipboard c)) \<and>
   ((\<exists>err. share = Some (Inl err) \<and> error_name err = ''AbortError'') \<longrightarrow>
      handleShare a share writeText c = c) \<and>
   (share = Some (Inr ()) \<longrightarrow> handleShare a share writeText c = c)"
  by (auto simp: handleShare_def copyToClipboard_def Let_def split: sum.splits option.splits)

theorem share_falls_back_to_clipboard_witness:
  "error_name (JsError ''NotAllowedError'') \<noteq> ''AbortError'' \<and>
   handleShare \<lparr>headline = ''Reef'', summary = None, source_url = ''https://example.org/reef''\<rparr>
     (Some (Inl (JsError ''NotAllowedError''))) (Some (Inr ()))
     \<lparr>showToast = False, toastMessage = [], clipboard = None, writeText_calls = []\<rparr> =
     \<lparr>showToast = True, toastMessage = ''Link copied!'',
      clipboard = Some ''https://example.org/reef'',
      writeText_calls = [''https://example.org/reef'']\<rparr> \<and>
   handleShare \<lparr>headline = ''Reef'', summary = None, source_url = ''https://example.org/reef''\<rparr>
     None (Some (Inl (JsError ''NotAllowedError'')))
     \<lparr>showToast = False, toastMessage = [], clipboard = None, writeText_calls = []\<rparr> =
     \<lparr>showToast = True, toastMessage = ''Failed to copy'', clipboard = None,
      writeText_calls = [''https://example.org/reef'']\<rparr> \<and>
   handleShare \<lparr>headline = ''Reef'', summary = None, source_url = ''https://example.org/reef''\<rparr>
     None None
     \<lparr>showToast = False, toastMessage = [], clipboard = None, writeText_calls = []\<rparr> =
     \<lparr>showToast = True, toastMessage = ''Failed to copy'', clipboard = None,
      writeText_calls = []\<rparr> \<and>
   handleShare \<lparr>headline = ''Reef'', summary = None, source_url = ''https://example.org/reef''\<rparr>
     (Some (Inl (JsError ''AbortError''))) (Some (Inr ()))
     \<lparr>showToast = False, toastMessage = [], clipboard = None, writeText_calls = []\<rparr> =
     \<lparr>showToast = False, toastMessage = [], clipboard = None, writeText_calls = []\<rparr>"
proof -
  let ?a = "\<lparr>headline = ''Reef'', summary = None, source_url = ''https://example.org/reef''\<rparr>"
  let ?c = "\<lparr>showToast = False, toastMessage = [], clipboard = None, writeText_calls = []\<rparr>"
  let ?other = "JsError ''NotAllowedError''"
  have other: "error_name ?other \<noteq> ''AbortError''"
    by simp
  have abort: "error_name (JsError ''AbortError'') = ''AbortError''"
    by simp
  have copied: "handleShare ?a (Some (Inl ?other)) (Some (Inr ())) ?c =
      \<lparr>showToast = True, toastMessage = ''Link copied!'',
       clipboard = Some ''https://example.org/reef'',
       writeText_calls = [''https://example.org/reef'']\<rparr>"
    using share_falls_back_to_clipboard [of "Some (Inl ?other)" ?a "Some (Inr ())" ?c] other
    by (cases "handleShare ?a (Some (Inl ?other)) (Some (Inr ())) ?c") simp
  have rejected: "handleShare ?a None (Some (Inl ?other)) ?c =
      \<lparr>showToast = True, toastMessage = ''Failed to copy'', clipboard = None,
       writeText_calls = [''https://example.org/reef'']\<rparr>"
    using share_falls_back_to_clipboard [of None ?a "Some (Inl ?other)" ?c]
    by (cases "handleShare ?a None (Some (Inl ?other)) ?c") simp
  have missing: "handleShare ?a None None ?c =
      \<lparr>showToast = True, toastMessage = ''Failed to copy'', clipboard = None,
       writeText_calls = []\<rparr>"
    using share_falls_back_to_clipboard [of None ?a None ?c]
    by (cases "handleShare ?a None None ?c") simp
  have cancelled: "handleShare ?a (Some (Inl (JsError ''AbortError''))) (Some (Inr ())) ?c = ?c"
    using share_falls_back_to_clipboard
      [of "Some (Inl (JsError ''AbortError''))" ?a "Some (Inr ())" ?c] abort
    by blast
  from other copied rejected missing cancelled show ?thesis
    by simp
qed

end
